theory Spec2Isabelle
  imports Complex_Main
begin

section \<open>Characters and Python string primitives\<close>

definition backslash :: char where
  "backslash = CHR 0x5C"

definition backtick :: char where
  "backtick = CHR 0x60"

definition newline :: char where
  "newline = CHR 0x0A"

definition fence :: string where
  "fence = [backtick, backtick, backtick]"

text \<open>\<^verbatim>\<open>text[i:].startswith(tag)\<close> for a position \<open>i \<ge> 0\<close>.\<close>

definition starts_at :: "string \<Rightarrow> nat \<Rightarrow> string \<Rightarrow> bool" where
  "starts_at text i tag = (take (length tag) (drop i text) = tag)"

text \<open>
  \<^verbatim>\<open>text.find(sub, start)\<close> for \<open>start \<ge> 0\<close>: the lowest index at or after \<open>start\<close>
  where \<open>sub\<close> occurs; \<open>None\<close> stands for Python's \<open>-1\<close>.
\<close>

definition str_find :: "string \<Rightarrow> string \<Rightarrow> nat \<Rightarrow> nat option" where
  "str_find text sub start =
     List.find (\<lambda>idx. starts_at text idx sub) [start ..< Suc (length text) - length sub]"

text \<open>\<^verbatim>\<open>text[a:b]\<close> for \<open>0 \<le> a\<close> and \<open>0 \<le> b\<close>.\<close>

definition slice :: "string \<Rightarrow> nat \<Rightarrow> nat \<Rightarrow> string" where
  "slice text a b = take (b - a) (drop a text)"

section \<open>Escape parity\<close>

text \<open>
  \<^verbatim>\<open>_is_escaped(text, index)\<close>: the loop runs \<open>i = index - 1, ..., 0\<close> and counts
  backslashes until the first other character. \<open>backslashes_before text k\<close> is that
  count for \<open>index = k\<close>. For \<open>index \<le> 0\<close> the range is empty and the result is
  \<open>False\<close>. Every call site passes an index below \<open>len(text)\<close> (a position
  returned by \<open>find\<close>, or one at which \<open>text\<close> has just been read), so the
  read \<open>text[i]\<close> is always in range.
\<close>

fun backslashes_before :: "string \<Rightarrow> nat \<Rightarrow> nat" where
  "backslashes_before text 0 = 0"
| "backslashes_before text (Suc i) =
     (if text ! i = backslash then Suc (backslashes_before text i) else 0)"

definition is_escaped :: "string \<Rightarrow> int \<Rightarrow> bool" where
  "is_escaped text index = (backslashes_before text (nat index) mod 2 \<noteq> 0)"

section \<open>Closing-tag search\<close>

lemma str_find_SomeD:
  assumes "str_find text sub start = Some idx"
  shows "start \<le> idx" and "idx + length sub \<le> length text" and "starts_at text idx sub"
proof -
  from assms have "idx \<in> set [start ..< Suc (length text) - length sub]" and "starts_at text idx sub"
    unfolding str_find_def by (auto simp: find_Some_iff)
  then show "start \<le> idx" and "idx + length sub \<le> length text" and "starts_at text idx sub"
    by auto
qed

text \<open>
  \<^verbatim>\<open>_find_closing_tag(text, start_pos, tag)\<close>: the position just after the first
  unescaped occurrence of \<open>tag\<close> at or after \<open>start_pos\<close>; \<open>None\<close> is the
  source's \<open>-1\<close>.
\<close>

function find_closing_tag :: "string \<Rightarrow> nat \<Rightarrow> string \<Rightarrow> nat option" where
  "find_closing_tag text search_pos tag =
     (case str_find text tag search_pos of
        None \<Rightarrow> None
      | Some idx \<Rightarrow>
          if \<not> is_escaped text (int idx) then Some (idx + length tag)
          else find_closing_tag text (idx + 1) tag)"
  by pat_completeness auto
termination
proof (relation "measure (\<lambda>(text, search_pos, tag). Suc (length text) - search_pos)")
  show "wf (measure (\<lambda>(text, search_pos, tag). Suc (length text) - search_pos))"
    by simp
next
  fix s :: string and search_pos :: nat and tag :: string and idx :: nat
  assume "str_find s tag search_pos = Some idx"
  then have "search_pos \<le> idx" and "idx + length tag \<le> length s"
    by (rule str_find_SomeD)+
  then show "((s, idx + 1, tag), (s, search_pos, tag))
      \<in> measure (\<lambda>(text, search_pos, tag). Suc (length text) - search_pos)"
    by simp
qed

declare find_closing_tag.simps [simp del]

section \<open>Zone scanner\<close>

record protected_zone =
  z_start :: nat
  z_end :: nat
  open_tag :: string
  close_tag :: string
  require_newline :: bool
  atomic :: bool

text \<open>
  The fenced-block branch of \<^verbatim>\<open>_find_zones\<close>. Its inner search loop is the loop of
  \<^verbatim>\<open>_find_closing_tag\<close> written out for the tag of three backticks. The opening tag is
  the first line of the block when the block contains a newline.
\<close>

definition fence_zone :: "string \<Rightarrow> nat \<Rightarrow> protected_zone option" where
  "fence_zone text i =
     (if starts_at text i fence then
        (case find_closing_tag text (i + 3) fence of
           None \<Rightarrow> None
         | Some e \<Rightarrow>
             Some \<lparr>z_start = i, z_end = e,
                   open_tag = (case str_find (slice text i e) [newline] 0 of
                                 Some newline_idx \<Rightarrow> slice text i (i + newline_idx)
                               | None \<Rightarrow> fence),
                   close_tag = fence, require_newline = True, atomic = False\<rparr>)
      else None)"

text \<open>The inline-code branch.\<close>

definition inline_code_zone :: "string \<Rightarrow> nat \<Rightarrow> protected_zone option" where
  "inline_code_zone text i =
     (if text ! i = backtick then
        (case find_closing_tag text (i + 1) [backtick] of
           None \<Rightarrow> None
         | Some e \<Rightarrow>
             Some \<lparr>z_start = i, z_end = e, open_tag = [backtick], close_tag = [backtick],
                   require_newline = False, atomic = True\<rparr>)
      else None)"

text \<open>The link branch: \<^verbatim>\<open>[text](url)\<close>.\<close>

definition link_zone :: "string \<Rightarrow> nat \<Rightarrow> protected_zone option" where
  "link_zone text i =
     (if text ! i = CHR ''['' then
        (case find_closing_tag text (i + 1) '']'' of
           None \<Rightarrow> None
         | Some text_end \<Rightarrow>
             if text_end < length text \<and> text ! text_end = CHR ''('' then
               (case find_closing_tag text (text_end + 1) '')'' of
                  None \<Rightarrow> None
                | Some url_end \<Rightarrow>
                    Some \<lparr>z_start = i, z_end = url_end, open_tag = [], close_tag = [],
                          require_newline = False, atomic = True\<rparr>)
             else None)
      else None)"

text \<open>The formatting-marker branch: the tag chosen for the character at \<open>i\<close>.\<close>

definition format_tag :: "string \<Rightarrow> nat \<Rightarrow> string" where
  "format_tag text i =
     (let c = text ! i; n = length text in
      if c = CHR ''*'' then ''*''
      else if c = CHR ''_'' then
        (if i + 1 < n \<and> text ! (i + 1) = CHR ''_'' then ''__'' else ''_'')
      else if c = CHR ''~'' then ''~''
      else if c = CHR ''|'' \<and> i + 1 < n \<and> text ! (i + 1) = CHR ''|'' then ''||''
      else [])"

definition format_zone :: "string \<Rightarrow> nat \<Rightarrow> protected_zone option" where
  "format_zone text i =
     (let tag = format_tag text i in
      if tag \<noteq> [] then
        (case find_closing_tag text (i + length tag) tag of
           None \<Rightarrow> None
         | Some e \<Rightarrow>
             Some \<lparr>z_start = i, z_end = e, open_tag = tag, close_tag = tag,
                   require_newline = False, atomic = False\<rparr>)
      else None)"

text \<open>
  One pass of the loop body at a position \<open>i < n\<close> that does not hold a backslash: the
  four branches are tried in the order of the source, and a branch that finds no closing
  tag falls through to the next one.
\<close>

definition zone_at :: "string \<Rightarrow> nat \<Rightarrow> protected_zone option" where
  "zone_at text i =
     (case fence_zone text i of
        Some z \<Rightarrow> Some z
      | None \<Rightarrow>
          (case inline_code_zone text i of
             Some z \<Rightarrow> Some z
           | None \<Rightarrow>
               (case link_zone text i of
                  Some z \<Rightarrow> Some z
                | None \<Rightarrow> format_zone text i)))"

lemma find_closing_tag_bounds:
  "find_closing_tag s search_pos tag = Some e \<Longrightarrow>
     search_pos + length tag \<le> e \<and> e \<le> length s"
proof (induction s search_pos tag rule: find_closing_tag.induct)
  case (1 s search_pos tag)
  from "1.prems" obtain idx where idx: "str_find s tag search_pos = Some idx"
    by (subst (asm) find_closing_tag.simps) (auto split: option.splits)
  note b = str_find_SomeD [OF idx]
  show ?case
  proof (cases "is_escaped s (int idx)")
    case False
    with "1.prems" idx have "e = idx + length tag"
      by (subst (asm) find_closing_tag.simps) simp
    with b show ?thesis by simp
  next
    case True
    with "1.prems" idx have "find_closing_tag s (idx + 1) tag = Some e"
      by (subst (asm) find_closing_tag.simps) simp
    with "1.IH" [OF idx] True have "idx + 1 + length tag \<le> e \<and> e \<le> length s"
      by simp
    with b show ?thesis by simp
  qed
qed

lemma fence_zone_bounds:
  "fence_zone s i = Some z \<Longrightarrow> z_start z = i \<and> i < z_end z \<and> z_end z \<le> length s"
  by (auto simp: fence_zone_def split: option.splits if_splits dest!: find_closing_tag_bounds)

lemma inline_code_zone_bounds:
  "inline_code_zone s i = Some z \<Longrightarrow> z_start z = i \<and> i < z_end z \<and> z_end z \<le> length s"
  by (auto simp: inline_code_zone_def split: option.splits if_splits
      dest!: find_closing_tag_bounds)

lemma link_zone_bounds:
  "link_zone s i = Some z \<Longrightarrow> z_start z = i \<and> i < z_end z \<and> z_end z \<le> length s"
  by (auto simp: link_zone_def split: option.splits if_splits dest!: find_closing_tag_bounds)

lemma format_zone_bounds:
  assumes "format_zone s i = Some z"
  shows "z_start z = i \<and> i < z_end z \<and> z_end z \<le> length s"
proof -
  define tag where "tag = format_tag s i"
  from assms have ne: "tag \<noteq> []"
    by (auto simp: format_zone_def Let_def tag_def split: if_splits)
  with assms obtain e where e: "find_closing_tag s (i + length tag) tag = Some e"
    and z: "z_start z = i" "z_end z = e"
    by (auto simp: format_zone_def Let_def tag_def split: option.splits)
  from find_closing_tag_bounds [OF e] have le: "i + length tag + length tag \<le> e" "e \<le> length s"
    by simp_all
  from ne have "Suc 0 \<le> length tag"
    by (cases tag) simp_all
  with le have "i < e"
    by arith
  with z le show ?thesis
    by simp
qed

lemma zone_at_cases:
  "zone_at s i = Some z \<Longrightarrow>
     fence_zone s i = Some z \<or> inline_code_zone s i = Some z \<or> link_zone s i = Some z
       \<or> format_zone s i = Some z"
  by (auto simp: zone_at_def split: option.splits)

lemma zone_at_advances:
  assumes "zone_at s i = Some z"
  shows "z_start z = i" and "i < z_end z" and "z_end z \<le> length s"
proof -
  have "z_start z = i \<and> i < z_end z \<and> z_end z \<le> length s"
    using zone_at_cases [OF assms]
      fence_zone_bounds inline_code_zone_bounds link_zone_bounds format_zone_bounds
    by blast
  then show "z_start z = i" and "i < z_end z" and "z_end z \<le> length s"
    by simp_all
qed

text \<open>
  \<^verbatim>\<open>_find_zones\<close>: the \<open>while i < n\<close> loop from position \<open>i\<close>. A backslash skips two
  positions, a matched zone is appended and scanning resumes at its end, and anything
  else advances by one. The zones are returned in the order they are appended.
\<close>

function find_zones_from :: "string \<Rightarrow> nat \<Rightarrow> protected_zone list" where
  "find_zones_from text i =
     (if \<not> i < length text then []
      else if text ! i = backslash then find_zones_from text (i + 2)
      else
        (case zone_at text i of
           Some z \<Rightarrow> z # find_zones_from text (z_end z)
         | None \<Rightarrow> find_zones_from text (i + 1)))"
  by pat_completeness auto
termination
proof (relation "measure (\<lambda>(text, i). length text - i)")
  show "wf (measure (\<lambda>(text, i). length text - i))"
    by simp
next
  fix s :: string and i :: nat
  assume "\<not> \<not> i < length s"
  then show "((s, i + 2), (s, i)) \<in> measure (\<lambda>(text, i). length text - i)"
    by simp
next
  fix s :: string and i :: nat and z :: protected_zone
  assume "\<not> \<not> i < length s" and "zone_at s i = Some z"
  then show "((s, z_end z), (s, i)) \<in> measure (\<lambda>(text, i). length text - i)"
    using zone_at_advances(2) [of s i z] by simp
next
  fix s :: string and i :: nat
  assume "\<not> \<not> i < length s"
  then show "((s, i + 1), (s, i)) \<in> measure (\<lambda>(text, i). length text - i)"
    by simp
qed

declare find_zones_from.simps [simp del]

definition find_zones :: "string \<Rightarrow> protected_zone list" where
  "find_zones text = find_zones_from text 0"

section \<open>Chunk splitter\<close>

text \<open>
  Python indexing and slicing on a string, for arbitrary integer positions: a negative
  index counts from the end, an index out of range raises \<open>IndexError\<close> (\<open>None\<close>
  here), and slice bounds are clamped to the string.
\<close>

definition py_index :: "string \<Rightarrow> int \<Rightarrow> char option" where
  "py_index text i =
     (let n = int (length text); j = (if i < 0 then n + i else i)
      in if 0 \<le> j \<and> j < n then Some (text ! nat j) else None)"

definition slice_bound :: "string \<Rightarrow> int \<Rightarrow> nat" where
  "slice_bound text i =
     (let n = int (length text) in nat (if i < 0 then max (n + i) 0 else min i n))"

definition py_slice :: "string \<Rightarrow> int \<Rightarrow> int \<Rightarrow> string" where
  "py_slice text a b = slice text (slice_bound text a) (slice_bound text b)"

definition py_slice_from :: "string \<Rightarrow> int \<Rightarrow> string" where
  "py_slice_from text a = drop (slice_bound text a) text"

text \<open>
  The first inner loop of \<^verbatim>\<open>_smart_split\<close>: the split position walks back over
  backslashes that are not themselves escaped, down to \<open>current_pos\<close> at most.
\<close>

function walk_back :: "string \<Rightarrow> int \<Rightarrow> int \<Rightarrow> int option" where
  "walk_back text current_pos split_pos =
     (if split_pos > current_pos then
        (case py_index text (split_pos - 1) of
           None \<Rightarrow> None
         | Some c \<Rightarrow>
             if c = backslash \<and> \<not> is_escaped text (split_pos - 1)
             then walk_back text current_pos (split_pos - 1)
             else Some split_pos)
      else Some split_pos)"
  by pat_completeness auto
termination
  by (relation "measure (\<lambda>(text, current_pos, split_pos). nat (split_pos - current_pos))") auto

declare walk_back.simps [simp del]

text \<open>
  The lookback loop \<^verbatim>\<open>for i in range(split_pos, search_back_limit, -1)\<close>, with its two
  variables \<open>best_split\<close> and \<open>found_nice_split\<close>: a newline ends the search, the
  first space seen is remembered, an unescaped backslash is skipped.
\<close>

function nice_split_search :: "string \<Rightarrow> int \<Rightarrow> int \<Rightarrow> int \<times> bool \<Rightarrow> (int \<times> bool) option" where
  "nice_split_search text search_back_limit i (best_split, found_nice_split) =
     (if i \<le> search_back_limit then Some (best_split, found_nice_split)
      else
        (case py_index text (i - 1) of
           None \<Rightarrow> None
         | Some c \<Rightarrow>
             if c = backslash \<and> \<not> is_escaped text (i - 1)
             then nice_split_search text search_back_limit (i - 1) (best_split, found_nice_split)
             else if c = newline then Some (i, True)
             else if c = CHR '' '' \<and> \<not> found_nice_split
             then nice_split_search text search_back_limit (i - 1) (i, True)
             else nice_split_search text search_back_limit (i - 1) (best_split, found_nice_split)))"
  by pat_completeness auto
termination
  by (relation "measure (\<lambda>(text, search_back_limit, i, st). nat (i - search_back_limit))") auto

declare nice_split_search.simps [simp del]

text \<open>
  A chunk is kept in its three parts, the injected prefix, the raw span
  \<^verbatim>\<open>text[span_from:span_to]\<close> and the injected suffix, together with the two positions of
  the span; the emitted string is their concatenation.
\<close>

record chunk_parts =
  injected_prefix :: string
  span_from :: int
  span_to :: int
  raw_span :: string
  injected_suffix :: string

definition chunk_string :: "chunk_parts \<Rightarrow> string" where
  "chunk_string c = injected_prefix c @ raw_span c @ injected_suffix c"

text \<open>The zone branch: the new split position, the suffix and the next prefix.\<close>

definition zone_adjust ::
  "protected_zone option \<Rightarrow> int \<Rightarrow> int \<Rightarrow> int \<Rightarrow> int \<times> string \<times> string" where
  "zone_adjust active_zone current_pos effective_max split_pos =
     (case active_zone of
        None \<Rightarrow> (split_pos, [], [])
      | Some z \<Rightarrow>
          if atomic z then
            (if int (z_start z) > current_pos then (int (z_start z), [], [])
             else (split_pos, [], []))
          else
            (let suffix = (if require_newline z then newline # close_tag z else close_tag z);
                 next_prefix = (if require_newline z then open_tag z @ [newline] else open_tag z)
             in (if split_pos + int (length suffix) > current_pos + effective_max
                 then split_pos - int (length suffix) else split_pos,
                 suffix, next_prefix)))"

datatype split_step = Last chunk_parts | More chunk_parts int string | StepIndexError

text \<open>One iteration of the \<open>while current_pos < text_len\<close> loop.\<close>

definition split_step ::
  "string \<Rightarrow> protected_zone list \<Rightarrow> int \<Rightarrow> int \<Rightarrow> string \<Rightarrow> split_step" where
  "split_step text zones max_length current_pos pending_prefix =
     (let text_len = int (length text);
          effective_max0 = max_length - int (length pending_prefix);
          effective_max = (if effective_max0 \<le> 0 then 100 else effective_max0)
      in if text_len - current_pos \<le> effective_max then
           Last \<lparr>injected_prefix = pending_prefix, span_from = current_pos, span_to = text_len,
                 raw_span = py_slice_from text current_pos, injected_suffix = []\<rparr>
         else
           (case walk_back text current_pos (current_pos + effective_max) of
              None \<Rightarrow> StepIndexError
            | Some split_pos1 \<Rightarrow>
                let active_zone =
                      List.find (\<lambda>z. int (z_start z) < split_pos1 \<and> split_pos1 < int (z_end z)) zones;
                    (split_pos2, suffix, next_prefix) =
                      zone_adjust active_zone current_pos effective_max split_pos1;
                    search_back_limit = max (split_pos2 - 150) current_pos
                in (case nice_split_search text search_back_limit split_pos2 (split_pos2, False) of
                      None \<Rightarrow> StepIndexError
                    | Some (best_split, found_nice_split) \<Rightarrow>
                        let split_pos = (if found_nice_split then best_split else split_pos2)
                        in More \<lparr>injected_prefix = pending_prefix, span_from = current_pos,
                                 span_to = split_pos,
                                 raw_span = py_slice text current_pos split_pos,
                                 injected_suffix = suffix\<rparr>
                             split_pos next_prefix)))"

text \<open>
  The loop itself may run forever, so it is given fuel: one unit per iteration, and
  \<open>OutOfFuel\<close> when the loop is still running after all of it.
\<close>

datatype 'a outcome = OutOfFuel | IndexError | Returned 'a

fun split_loop ::
  "nat \<Rightarrow> string \<Rightarrow> protected_zone list \<Rightarrow> int \<Rightarrow> int \<Rightarrow> string \<Rightarrow> chunk_parts list outcome" where
  "split_loop 0 text zones max_length current_pos pending_prefix = OutOfFuel"
| "split_loop (Suc fuel) text zones max_length current_pos pending_prefix =
     (if \<not> current_pos < int (length text) then Returned []
      else
        (case split_step text zones max_length current_pos pending_prefix of
           StepIndexError \<Rightarrow> IndexError
         | Last c \<Rightarrow> Returned [c]
         | More c split_pos next_prefix \<Rightarrow>
             (case split_loop fuel text zones max_length split_pos next_prefix of
                Returned cs \<Rightarrow> Returned (c # cs)
              | OutOfFuel \<Rightarrow> OutOfFuel
              | IndexError \<Rightarrow> IndexError)))"

text \<open>
  \<^verbatim>\<open>_smart_split(text, max_length)\<close>, first with the chunks in parts, then as the list of
  strings the source returns. The \<open>lru_cache\<close> decorator only memoizes the function.
\<close>

definition smart_split_parts :: "nat \<Rightarrow> string \<Rightarrow> int \<Rightarrow> chunk_parts list outcome" where
  "smart_split_parts fuel text max_length =
     split_loop fuel text (find_zones text) (if max_length \<le> 0 then 4096 else max_length) 0 []"

definition smart_split :: "nat \<Rightarrow> string \<Rightarrow> int \<Rightarrow> string list outcome" where
  "smart_split fuel text max_length =
     (case smart_split_parts fuel text max_length of
        Returned cs \<Rightarrow> Returned (map chunk_string cs)
      | OutOfFuel \<Rightarrow> OutOfFuel
      | IndexError \<Rightarrow> IndexError)"

section \<open>Errors\<close>

text \<open>
  The exception classes that occur: the two of \<^verbatim>\<open>_const.py\<close>, the built-in ones this code
  raises or can receive, and \<open>OtherException\<close> for any further subclass of
  \<open>Exception\<close>. Interrupts and task cancellation, which do not derive from
  \<open>Exception\<close>, are not modelled.
\<close>

datatype exc_class =
    YandexAPIError | YandexRequestError
  | ValueError | RuntimeError | TypeError | AttributeError | OverflowError | OtherException

text \<open>A JSON value, as \<^verbatim>\<open>resp.json()\<close> returns it.\<close>

datatype json =
    JNull | JBool bool | JNumber int | JString string
  | JArray "json list" | JObject "(string \<times> json) list"

text \<open>
  The message of an exception, \<^verbatim>\<open>str(e)\<close>, kept as a term instead of a string: the
  fixed Russian wording of each format string is the constructor, its holes are the
  arguments.
\<close>

datatype message =
    Text string
    \<comment> \<open>the message of an exception raised outside this code\<close>
  | EmptyInput
    \<comment> \<open>the \<open>ValueError\<close> of \<^verbatim>\<open>_detect_lang_pair\<close> for an empty text\<close>
  | BadResponse json
    \<comment> \<open>the \<open>YandexAPIError\<close> text, which quotes \<^verbatim>\<open>json_resp\<close>\<close>
  | TranslateFailed message
    \<comment> \<open>the \<open>YandexRequestError\<close> text of \<^verbatim>\<open>_yandex_translate\<close>, which quotes \<^verbatim>\<open>str(e)\<close>\<close>
  | EditorFailed message
    \<comment> \<open>the \<open>YandexRequestError\<close> text of \<^verbatim>\<open>_yandex_editor_api\<close>, which quotes \<^verbatim>\<open>str(e)\<close>\<close>
  | Translated message nat nat
    \<comment> \<open>\<^verbatim>\<open>str(e)\<close>, a newline and the bracketed note that \<open>n/m\<close> chunks were translated\<close>
  | Processed message nat nat
    \<comment> \<open>\<^verbatim>\<open>str(e)\<close>, a newline and the bracketed note that \<open>n/m\<close> chunks were processed\<close>
  | Interpreter
    \<comment> \<open>a message produced by the Python runtime itself\<close>

type_synonym exn = "exc_class \<times> message"

section \<open>Backoff policy\<close>

definition BACKOFF_FACTOR :: real where
  "BACKOFF_FACTOR = 2"

text \<open>
  \<^verbatim>\<open>_RETRY_CONFIG.get(type(exception), _DEFAULT_RETRY_CONFIG)\<close> as the pair
  \<open>(base_delay, max_delay)\<close>.
\<close>

definition retry_config :: "exc_class \<Rightarrow> real \<times> real" where
  "retry_config c =
     (case c of
        YandexAPIError \<Rightarrow> (1, 10)
      | YandexRequestError \<Rightarrow> (2, 30)
      | _ \<Rightarrow> (1, 15))"

text \<open>
  \<^verbatim>\<open>error_delay(exception, attempt)\<close>, the delay of the returned pair (the class name,
  its second component, only feeds the log). The attempt index comes from
  \<^verbatim>\<open>range(max_retries)\<close> and is a natural number. The delays are Python floats: the
  power \<^verbatim>\<open>2.0 ** attempt\<close> is exact up to \<open>attempt = 1023\<close> and raises
  \<open>OverflowError\<close> from \<open>1024\<close> on; below that bound the product and the minimum
  are the real ones (a product that overflows to infinity is cut by the minimum).
\<close>

definition error_delay :: "exc_class \<Rightarrow> nat \<Rightarrow> exn + real" where
  "error_delay c attempt =
     (if 1024 \<le> attempt then Inl (OverflowError, Interpreter)
      else
        (let (base_delay, max_delay) = retry_config c
         in Inr (min (base_delay * BACKOFF_FACTOR ^ attempt) max_delay)))"

section \<open>Per-chunk retry and the batch loop\<close>

definition recognized :: "exc_class \<Rightarrow> bool" where
  "recognized c = (c = YandexAPIError \<or> c = YandexRequestError)"

text \<open>
  \<^verbatim>\<open>_translate_chunk_with_retry\<close> and \<^verbatim>\<open>_editor_chunk_with_retry\<close> are the same loop around
  two different calls, so the call is a parameter: \<open>transform w chunk\<close> runs in the
  world \<open>w\<close> (everything outside the program that decides the outcome) and returns the
  result or the exception together with the new world. The state of the loop carries the
  world and the list of delays slept so far. Logging is left out. The loop is
  \<^verbatim>\<open>for attempt in range(max_retries)\<close> followed by \<^verbatim>\<open>raise last_exception\<close>, which is a
  \<open>TypeError\<close> when no attempt was made and \<open>last_exception\<close> is still \<open>None\<close>.
\<close>

function retry_from ::
  "('w \<Rightarrow> string \<Rightarrow> (exn + 'r) \<times> 'w) \<Rightarrow> string \<Rightarrow> int \<Rightarrow> nat \<Rightarrow> exn option \<Rightarrow> 'w \<times> real list
     \<Rightarrow> (exn + 'r) \<times> 'w \<times> real list" where
  "retry_from transform chunk max_retries attempt last_exception (w, slept) =
     (if \<not> int attempt < max_retries then
        (case last_exception of
           None \<Rightarrow> (Inl (TypeError, Interpreter), w, slept)
         | Some e \<Rightarrow> (Inl e, w, slept))
      else
        (case transform w chunk of
           (Inr result, w') \<Rightarrow> (Inr result, w', slept)
         | (Inl e, w') \<Rightarrow>
             if recognized (fst e) then
               (case error_delay (fst e) attempt of
                  Inl overflow \<Rightarrow> (Inl overflow, w', slept)
                | Inr delay \<Rightarrow>
                    retry_from transform chunk max_retries (attempt + 1) (Some e)
                      (w', if int attempt < max_retries - 1 then slept @ [delay] else slept))
             else (Inl e, w', slept)))"
  by pat_completeness auto
termination
  by (relation "measure (\<lambda>(transform, chunk, max_retries, attempt, last_exception, st).
        nat (max_retries - int attempt))") auto

declare retry_from.simps [simp del]

definition chunk_with_retry ::
  "('w \<Rightarrow> string \<Rightarrow> (exn + 'r) \<times> 'w) \<Rightarrow> string \<Rightarrow> int \<Rightarrow> 'w \<times> real list
     \<Rightarrow> (exn + 'r) \<times> 'w \<times> real list" where
  "chunk_with_retry transform chunk max_retries st =
     retry_from transform chunk max_retries 0 None st"

text \<open>
  The \<open>for\<close> loop of \<^verbatim>\<open>_yandex_translate_batch\<close> and of \<^verbatim>\<open>_yandex_editor_batch\<close> over
  \<open>input_chunks\<close>, with \<open>result_chunks\<close> as the accumulator; \<open>annotate\<close> is the
  format string of the re-raised error (\<open>Translated\<close> or \<open>Processed\<close>). An exception
  of another class passes through the \<open>except\<close> clause unchanged.
\<close>

fun batch_loop ::
  "('w \<Rightarrow> string \<Rightarrow> (exn + 'r) \<times> 'w) \<Rightarrow> (message \<Rightarrow> nat \<Rightarrow> nat \<Rightarrow> message) \<Rightarrow> int \<Rightarrow> nat
     \<Rightarrow> string list \<Rightarrow> 'r list \<Rightarrow> 'w \<times> real list \<Rightarrow> (exn + 'r list) \<times> 'w \<times> real list" where
  "batch_loop transform annotate max_retries total_chunks [] result_chunks st =
     (Inr result_chunks, st)"
| "batch_loop transform annotate max_retries total_chunks (chunk # rest) result_chunks st =
     (case chunk_with_retry transform chunk max_retries st of
        (Inr result, st') \<Rightarrow>
          batch_loop transform annotate max_retries total_chunks rest (result_chunks @ [result]) st'
      | (Inl e, st') \<Rightarrow>
          if recognized (fst e)
          then (Inl (fst e, annotate (snd e) (length result_chunks) total_chunks), st')
          else (Inl e, st'))"

definition run_batch ::
  "('w \<Rightarrow> string \<Rightarrow> (exn + 'r) \<times> 'w) \<Rightarrow> (message \<Rightarrow> nat \<Rightarrow> nat \<Rightarrow> message) \<Rightarrow> int
     \<Rightarrow> string list \<Rightarrow> 'w \<times> real list \<Rightarrow> (exn + 'r list) \<times> 'w \<times> real list" where
  "run_batch transform annotate max_retries input_chunks st =
     batch_loop transform annotate max_retries (length input_chunks) input_chunks [] st"

section \<open>The built-in transforms\<close>

text \<open>
  \<^verbatim>\<open>_make_yandex_request\<close> reaches the remote service; what it does is an input of the
  model: it returns the decoded JSON response or raises.
\<close>

datatype request_outcome = Responded json | Failed exn

text \<open>\<^verbatim>\<open>json_resp.get(key)\<close>: only a dictionary has the method.\<close>

definition json_get :: "json \<Rightarrow> string \<Rightarrow> exn + json" where
  "json_get j key =
     (case j of
        JObject kvs \<Rightarrow> (case map_of kvs key of Some v \<Rightarrow> Inr v | None \<Rightarrow> Inr JNull)
      | _ \<Rightarrow> Inl (AttributeError, Interpreter))"

text \<open>Python truthiness of a JSON value.\<close>

definition truthy :: "json \<Rightarrow> bool" where
  "truthy j =
     (case j of
        JNull \<Rightarrow> False
      | JBool b \<Rightarrow> b
      | JNumber n \<Rightarrow> n \<noteq> 0
      | JString s \<Rightarrow> s \<noteq> []
      | JArray xs \<Rightarrow> xs \<noteq> []
      | JObject kvs \<Rightarrow> kvs \<noteq> [])"

text \<open>\<^verbatim>\<open>''.join(items)\<close>: a \<open>TypeError\<close> unless every item is a string.\<close>

fun join_strings :: "json list \<Rightarrow> exn + string" where
  "join_strings [] = Inr []"
| "join_strings (JString s # rest) =
     (case join_strings rest of Inl e \<Rightarrow> Inl e | Inr t \<Rightarrow> Inr (s @ t))"
| "join_strings (_ # rest) = Inl (TypeError, Interpreter)"

text \<open>
  \<^verbatim>\<open>_yandex_translate(input_text, client)\<close>. The language detection runs before the
  \<open>try\<close> block and raises \<open>ValueError\<close> for an empty text; its result only feeds the
  request. Inside the block every exception, the \<open>YandexAPIError\<close> raised for a
  malformed response included, is caught by \<^verbatim>\<open>except Exception\<close> and replaced.
\<close>

definition yandex_translate :: "string \<Rightarrow> request_outcome \<Rightarrow> exn + string" where
  "yandex_translate input_text response =
     (if input_text = [] then Inl (ValueError, EmptyInput)
      else
        (let body =
               (case response of
                  Failed e \<Rightarrow> Inl e
                | Responded json_resp \<Rightarrow>
                    (case json_get json_resp ''text'' of
                       Inl e \<Rightarrow> Inl e
                     | Inr translated_text_list \<Rightarrow>
                         (case translated_text_list of
                            JArray items \<Rightarrow>
                              if items \<noteq> [] then join_strings items
                              else Inl (YandexAPIError, BadResponse json_resp)
                          | _ \<Rightarrow> Inl (YandexAPIError, BadResponse json_resp))))
         in (case body of
               Inr result \<Rightarrow> Inr result
             | Inl e \<Rightarrow> Inl (YandexRequestError, TranslateFailed (snd e)))))"

text \<open>
  \<^verbatim>\<open>_yandex_editor_api(input_text, client, action)\<close>: the same shape; the action only
  feeds the request. Any truthy \<^verbatim>\<open>result_text\<close> is returned as it is.
\<close>

definition yandex_editor_api :: "string \<Rightarrow> string \<Rightarrow> request_outcome \<Rightarrow> exn + json" where
  "yandex_editor_api input_text action response =
     (if input_text = [] then Inl (ValueError, EmptyInput)
      else
        (let body =
               (case response of
                  Failed e \<Rightarrow> Inl e
                | Responded json_resp \<Rightarrow>
                    (case json_get json_resp ''result_text'' of
                       Inl e \<Rightarrow> Inl e
                     | Inr result \<Rightarrow>
                         if truthy result then Inr result
                         else Inl (YandexAPIError, BadResponse json_resp)))
         in (case body of
               Inr result \<Rightarrow> Inr result
             | Inl e \<Rightarrow> Inl (YandexRequestError, EditorFailed (snd e)))))"

text \<open>
  The two transforms as the retry loop calls them. The world is the number of requests
  made so far, and \<open>service k\<close> is what the remote service does on request number
  \<open>k\<close>; an empty text makes no request.
\<close>

definition translate_call ::
  "(nat \<Rightarrow> request_outcome) \<Rightarrow> nat \<Rightarrow> string \<Rightarrow> (exn + string) \<times> nat" where
  "translate_call service requests chunk =
     (yandex_translate chunk (service requests), if chunk = [] then requests else Suc requests)"

definition editor_call ::
  "(nat \<Rightarrow> request_outcome) \<Rightarrow> string \<Rightarrow> nat \<Rightarrow> string \<Rightarrow> (exn + json) \<times> nat" where
  "editor_call service action requests chunk =
     (yandex_editor_api chunk action (service requests),
      if chunk = [] then requests else Suc requests)"

definition translate_chunk_with_retry ::
  "(nat \<Rightarrow> request_outcome) \<Rightarrow> string \<Rightarrow> int \<Rightarrow> nat \<times> real list \<Rightarrow> (exn + string) \<times> nat \<times> real list" where
  "translate_chunk_with_retry service = chunk_with_retry (translate_call service)"

definition editor_chunk_with_retry ::
  "(nat \<Rightarrow> request_outcome) \<Rightarrow> string \<Rightarrow> string \<Rightarrow> int \<Rightarrow> nat \<times> real list
     \<Rightarrow> (exn + json) \<times> nat \<times> real list" where
  "editor_chunk_with_retry service action = chunk_with_retry (editor_call service action)"

section \<open>Notions used to state the properties\<close>

text \<open>
  The number of consecutive backslashes immediately before position \<open>p\<close>, read off the
  text itself.
\<close>

definition preceding_backslashes :: "string \<Rightarrow> nat \<Rightarrow> nat" where
  "preceding_backslashes text p = length (takeWhile (\<lambda>c. c = backslash) (rev (take p text)))"

text \<open>
  The position of the closing delimiter of a zone: where its closing tag starts, or, for a
  link, whose tags are empty, the closing parenthesis.
\<close>

definition closing_delimiter_pos :: "protected_zone \<Rightarrow> nat" where
  "closing_delimiter_pos z = z_end z - (if close_tag z = [] then 1 else length (close_tag z))"

text \<open>A text with an escaped asterisk between two plain ones.\<close>

definition escaped_star_text :: string where
  "escaped_star_text = [CHR ''*'', CHR ''a'', backslash, CHR ''*'', CHR ''b'', CHR ''*'']"

text \<open>
  A transform for examples: it fails with the exception \<open>e\<close> on the chunk \<open>bad\<close>
  and returns every other chunk unchanged; its world counts the calls.
\<close>

definition failing_on :: "string \<Rightarrow> exn \<Rightarrow> nat \<Rightarrow> string \<Rightarrow> (exn + string) \<times> nat" where
  "failing_on bad e calls chunk = (if chunk = bad then Inl e else Inr chunk, Suc calls)"

text \<open>
  The transform fails on each of \<open>n\<close> successive calls for \<open>chunk\<close>, starting in the
  world \<open>w\<close>, every time with an exception of one of the two recognized classes: the
  result is the list of these exceptions, in order, and the world after the last call.
\<close>

fun attempts_fail ::
  "('w \<Rightarrow> string \<Rightarrow> (exn + 'r) \<times> 'w) \<Rightarrow> string \<Rightarrow> nat \<Rightarrow> 'w \<Rightarrow> (exn list \<times> 'w) option" where
  "attempts_fail transform chunk 0 w = Some ([], w)"
| "attempts_fail transform chunk (Suc n) w =
     (case transform w chunk of
        (Inr result, w') \<Rightarrow> None
      | (Inl e, w') \<Rightarrow>
          if recognized (fst e) then
            (case attempts_fail transform chunk n w' of
               None \<Rightarrow> None
             | Some (es, w'') \<Rightarrow> Some (e # es, w''))
          else None)"

section \<open>The splitter on small length limits\<close>

lemma pipes_split:
  "smart_split_parts (3 + fuel) ''a||||'' 1 =
     Returned
       [\<lparr>injected_prefix = [], span_from = 0, span_to = 1, raw_span = ''a'',
          injected_suffix = []\<rparr>,
        \<lparr>injected_prefix = [], span_from = 1, span_to = 0, raw_span = [],
          injected_suffix = ''||''\<rparr>,
        \<lparr>injected_prefix = ''||'', span_from = 0, span_to = 5, raw_span = ''a||||'',
          injected_suffix = []\<rparr>]"
  by code_simp

text \<open>
  C1. The raw spans of the chunks do not always reproduce the text. For the text
  \<open>a||||\<close> and \<open>max_length = 1\<close> the split returns three chunks. The second
  iteration starts at position 1 inside the spoiler zone \<open>[1, 5)\<close>; subtracting the
  length of the closing tag puts the split position at 0, behind the current position, so
  the chunk has an empty raw span and the third chunk starts again at 0. The raw spans
  are \<open>a\<close>, the empty string and \<open>a||||\<close>: the first character is emitted twice.
\<close>

theorem smart_split_repeats_source:
  "\<exists>cs. smart_split_parts (3 + fuel) ''a||||'' 1 = Returned cs
     \<and> map chunk_string cs = [''a'', ''||'', ''||a||||'']
     \<and> map raw_span cs = [''a'', [], ''a||||'']
     \<and> concat (map raw_span cs) = ''aa||||''"
  by (simp add: pipes_split chunk_string_def)

lemma emphasis_first_step:
  "split_step ''*aaaaaa*'' (find_zones ''*aaaaaa*'') 2 0 [] =
     More \<lparr>injected_prefix = [], span_from = 0, span_to = 1, raw_span = ''*'',
            injected_suffix = ''*''\<rparr> 1 ''*''"
  by code_simp

lemma emphasis_stuck_step:
  "split_step ''*aaaaaa*'' (find_zones ''*aaaaaa*'') 2 1 ''*'' =
     More \<lparr>injected_prefix = ''*'', span_from = 1, span_to = 1, raw_span = [],
            injected_suffix = ''*''\<rparr> 1 ''*''"
  by code_simp

lemma emphasis_stuck_loop:
  "split_loop fuel ''*aaaaaa*'' (find_zones ''*aaaaaa*'') 2 1 ''*'' = OutOfFuel"
proof (induction fuel)
  case 0
  show ?case by simp
next
  case (Suc fuel)
  then show ?case
    by (simp add: emphasis_stuck_step)
qed

text \<open>
  C2. The loop does not always terminate. For the text \<open>*aaaaaa*\<close> and
  \<open>max_length = 2\<close> the first iteration emits one character and reopens the emphasis
  zone with the prefix \<open>*\<close>. From then on the effective budget is 1, the tentative
  split position is one past the current position, and subtracting the length of the
  closing tag brings it back to the current position: the iteration emits the chunk
  \<open>**\<close> and leaves the current position and the prefix as they were. Whatever the
  fuel, the loop is still running when it is used up.
\<close>

theorem smart_split_diverges:
  "smart_split fuel ''*aaaaaa*'' 2 = OutOfFuel"
proof (cases fuel)
  case 0
  then show ?thesis
    by (simp add: smart_split_def smart_split_parts_def)
next
  case (Suc k)
  have "split_loop (Suc k) ''*aaaaaa*'' (find_zones ''*aaaaaa*'') 2 0 [] = OutOfFuel"
    by (simp add: emphasis_first_step emphasis_stuck_loop)
  with Suc show ?thesis
    by (simp add: smart_split_def smart_split_parts_def)
qed

lemma atomic_zones_split:
  "smart_split_parts (4 + fuel) ''yyyyyyyyx`a b`[l](u)cc'' 8 =
     Returned
       [\<lparr>injected_prefix = [], span_from = 0, span_to = 8, raw_span = ''yyyyyyyy'',
          injected_suffix = []\<rparr>,
        \<lparr>injected_prefix = [], span_from = 8, span_to = 12, raw_span = ''x`a '',
          injected_suffix = []\<rparr>,
        \<lparr>injected_prefix = [], span_from = 12, span_to = 20, raw_span = ''b`[l](u)'',
          injected_suffix = []\<rparr>,
        \<lparr>injected_prefix = [], span_from = 20, span_to = 22, raw_span = ''cc'',
          injected_suffix = []\<rparr>]"
  by code_simp

lemma atomic_zones:
  "find_zones ''yyyyyyyyx`a b`[l](u)cc'' =
     [\<lparr>z_start = 9, z_end = 14, open_tag = [backtick], close_tag = [backtick],
        require_newline = False, atomic = True\<rparr>,
      \<lparr>z_start = 14, z_end = 20, open_tag = [], close_tag = [],
        require_newline = False, atomic = True\<rparr>]"
  by code_simp

lemma atomic_zones_adjust:
  "zone_adjust
     (List.find (\<lambda>z. int (z_start z) < 16 \<and> 16 < int (z_end z))
        (find_zones ''yyyyyyyyx`a b`[l](u)cc'')) 8 8 16 = (14, [], [])"
  by code_simp

text \<open>
  C3. A chunk boundary can fall strictly inside an atomic zone that starts after the
  current position. The text \<open>yyyyyyyyx`a b`[l](u)cc\<close> has two zones, both atomic: the
  inline code \<open>[9, 14)\<close> and the link \<open>[14, 20)\<close>. With \<open>max_length = 8\<close> the
  first boundary is 8. In the second iteration the tentative split position 16 lies
  strictly inside the link, which starts after the current position 8, so the split
  position is moved to the start of the link, 14. The lookback for a space then moves it
  on to 12, just after the space inside the inline code: that zone is cut between the
  second and the third chunk.
\<close>

theorem smart_split_cuts_atomic_zone:
  "\<exists>cs inline_code link.
     smart_split_parts (4 + fuel) ''yyyyyyyyx`a b`[l](u)cc'' 8 = Returned cs
     \<and> find_zones ''yyyyyyyyx`a b`[l](u)cc'' = [inline_code, link]
     \<and> atomic inline_code \<and> z_start inline_code = 9 \<and> z_end inline_code = 14
     \<and> atomic link \<and> z_start link = 14 \<and> z_end link = 20
     \<and> zone_adjust (Some link) 8 8 16 = (14, [], [])
     \<and> map span_to cs = [8, 12, 20, 22]
     \<and> map chunk_string cs = [''yyyyyyyy'', ''x`a '', ''b`[l](u)'', ''cc'']"
  using atomic_zones_adjust
  by (simp add: atomic_zones_split atomic_zones chunk_string_def)

section \<open>Properties of the zone scanner\<close>

lemma find_closing_tag_SomeD:
  "find_closing_tag s p tag = Some e \<Longrightarrow>
     \<exists>idx. p \<le> idx \<and> e = idx + length tag \<and> starts_at s idx tag \<and> \<not> is_escaped s (int idx)
       \<and> e \<le> length s"
proof (induction s p tag rule: find_closing_tag.induct)
  case (1 s p tag)
  from "1.prems" obtain idx where idx: "str_find s tag p = Some idx"
    by (subst (asm) find_closing_tag.simps) (auto split: option.splits)
  note b = str_find_SomeD [OF idx]
  show ?case
  proof (cases "is_escaped s (int idx)")
    case False
    with "1.prems" idx have "e = idx + length tag"
      by (subst (asm) find_closing_tag.simps) simp
    with b False show ?thesis by auto
  next
    case True
    with "1.prems" idx have "find_closing_tag s (idx + 1) tag = Some e"
      by (subst (asm) find_closing_tag.simps) simp
    with "1.IH" [OF idx] True obtain j where
      "idx + 1 \<le> j" "e = j + length tag" "starts_at s j tag" "\<not> is_escaped s (int j)" "e \<le> length s"
      by auto
    with b show ?thesis by (intro exI [of _ j]) simp
  qed
qed

lemma find_zones_from_ordered:
  "sorted_wrt (\<lambda>a b. z_end a \<le> z_start b) (find_zones_from s i) \<and>
   (\<forall>z\<in>set (find_zones_from s i). i \<le> z_start z \<and> z_start z < z_end z \<and> z_end z \<le> length s)"
proof (induction s i rule: find_zones_from.induct)
  case (1 s i)
  show ?case
  proof (cases "i < length s")
    case False
    then have "find_zones_from s i = []"
      by (subst find_zones_from.simps) simp
    then show ?thesis by simp
  next
    case len: True
    show ?thesis
    proof (cases "s ! i = backslash")
      case True
      with len have eq: "find_zones_from s i = find_zones_from s (i + 2)"
        by (subst find_zones_from.simps) simp
      from "1.IH"(1) len True show ?thesis
        unfolding eq by fastforce
    next
      case nb: False
      show ?thesis
      proof (cases "zone_at s i")
        case None
        with len nb have eq: "find_zones_from s i = find_zones_from s (i + 1)"
          by (subst find_zones_from.simps) simp
        from "1.IH"(2) len nb None show ?thesis
          unfolding eq by fastforce
      next
        case (Some z)
        with len nb have eq: "find_zones_from s i = z # find_zones_from s (z_end z)"
          by (subst find_zones_from.simps) simp
        note adv = zone_at_advances [OF Some]
        from "1.IH"(3) len nb Some adv show ?thesis
          unfolding eq by fastforce
      qed
    qed
  qed
qed

text \<open>
  C9. The zones returned by the scanner are ordered and disjoint: every zone is non-empty
  and lies within the text, and a zone that comes earlier in the list ends at or before
  the start of every later one. In particular consecutive zones \<open>z\<^sub>k\<close> and
  \<open>z\<^sub>k\<^sub>+\<^sub>1\<close> satisfy \<open>start z\<^sub>k < end z\<^sub>k \<le> start z\<^sub>k\<^sub>+\<^sub>1\<close>, so no two zones
  overlap and none is nested in another.
\<close>

theorem zones_ordered_disjoint:
  assumes "j < k" and "k < length (find_zones s)"
  shows "z_start (find_zones s ! j) < z_end (find_zones s ! j)
       \<and> z_end (find_zones s ! j) \<le> z_start (find_zones s ! k)
       \<and> z_start (find_zones s ! k) < z_end (find_zones s ! k)
       \<and> z_end (find_zones s ! k) \<le> length s"
proof -
  let ?zs = "find_zones s"
  have s: "sorted_wrt (\<lambda>a b. z_end a \<le> z_start b) ?zs"
    and b: "\<forall>z\<in>set ?zs. z_start z < z_end z \<and> z_end z \<le> length s"
    using find_zones_from_ordered [of s 0] by (auto simp: find_zones_def)
  from assms have "?zs ! j \<in> set ?zs" and "?zs ! k \<in> set ?zs"
    by simp_all
  with b have "z_start (?zs ! j) < z_end (?zs ! j)" and "z_start (?zs ! k) < z_end (?zs ! k)"
    and "z_end (?zs ! k) \<le> length s"
    by blast+
  moreover from s assms have "z_end (?zs ! j) \<le> z_start (?zs ! k)"
    by (rule sorted_wrt_nth_less)
  ultimately show ?thesis by simp
qed

theorem zones_ordered_disjoint_witness:
  "(0::nat) < 1 \<and> 1 < length (find_zones ''*a* `b`'')
   \<and> z_start (find_zones ''*a* `b`'' ! 0) < z_end (find_zones ''*a* `b`'' ! 0)
   \<and> z_end (find_zones ''*a* `b`'' ! 0) \<le> z_start (find_zones ''*a* `b`'' ! 1)
   \<and> z_start (find_zones ''*a* `b`'' ! 1) < z_end (find_zones ''*a* `b`'' ! 1)
   \<and> z_end (find_zones ''*a* `b`'' ! 1) \<le> length ''*a* `b`''"
proof -
  have a: "(0::nat) < 1"
    by simp
  have b: "1 < length (find_zones ''*a* `b`'')"
    by code_simp
  from zones_ordered_disjoint [OF a b] a b show ?thesis
    by simp
qed

lemma backslashes_before_count:
  "p \<le> length s \<Longrightarrow> backslashes_before s p = preceding_backslashes s p"
proof (induction p)
  case 0
  show ?case by (simp add: preceding_backslashes_def)
next
  case (Suc p)
  then have "take (Suc p) s = take p s @ [s ! p]"
    by (simp add: take_Suc_conv_app_nth)
  with Suc show ?case
    by (simp add: preceding_backslashes_def)
qed

lemma starts_at_nth:
  assumes "starts_at s idx tag" and "k < length tag"
  shows "s ! (idx + k) = tag ! k"
proof -
  from assms(1) have eq: "take (length tag) (drop idx s) = tag"
    by (simp add: starts_at_def)
  have "tag ! k = take (length tag) (drop idx s) ! k"
    by (simp add: eq)
  also from assms(2) have "\<dots> = drop idx s ! k"
    by simp
  also have "\<dots> = s ! (idx + k)"
  proof -
    from arg_cong [OF eq, of length] have "length tag \<le> length s - idx"
      by simp
    with assms(2) have "idx \<le> length s" by simp
    then show ?thesis by simp
  qed
  finally show ?thesis by simp
qed

text \<open>What a successful closing-tag search says about escaping.\<close>

lemma closing_tag_unescaped:
  assumes "find_closing_tag s p tag = Some e" and "tag \<noteq> []" and "last tag \<noteq> backslash"
  shows "even (backslashes_before s (e - length tag))" and "backslashes_before s e = 0"
proof -
  from find_closing_tag_SomeD [OF assms(1)] obtain idx where
    idx: "e = idx + length tag" "starts_at s idx tag" "\<not> is_escaped s (int idx)"
    by blast
  from idx(3) have "even (backslashes_before s idx)"
    by (simp add: is_escaped_def even_iff_mod_2_eq_zero)
  with idx(1) show "even (backslashes_before s (e - length tag))"
    by simp
  from assms(2) obtain m where m: "length tag = Suc m"
    by (cases tag) auto
  with idx(2) have "s ! (idx + m) = tag ! m"
    by (intro starts_at_nth) simp_all
  also from m assms(2) have "tag ! m = last tag"
    by (simp add: last_conv_nth)
  finally have "s ! (idx + m) \<noteq> backslash"
    using assms(3) by simp
  moreover from idx(1) m have "e = Suc (idx + m)" by simp
  ultimately show "backslashes_before s e = 0"
    by simp
qed

lemma format_tag_last: "format_tag s i \<noteq> [] \<Longrightarrow> last (format_tag s i) \<noteq> backslash"
  by (auto simp: format_tag_def Let_def backslash_def split: if_splits)

lemma fence_zone_unescaped:
  assumes "fence_zone s i = Some z"
  shows "even (backslashes_before s (closing_delimiter_pos z)) \<and> backslashes_before s (z_end z) = 0"
proof -
  from assms obtain e where e: "find_closing_tag s (i + 3) fence = Some e"
    and z: "z_end z = e" "close_tag z = fence"
    by (auto simp: fence_zone_def split: option.splits if_splits)
  have "fence \<noteq> []" "last fence \<noteq> backslash"
    by (simp_all add: fence_def backslash_def backtick_def)
  from closing_tag_unescaped [OF e this] z show ?thesis
    by (simp add: closing_delimiter_pos_def fence_def)
qed

lemma inline_code_zone_unescaped:
  assumes "inline_code_zone s i = Some z"
  shows "even (backslashes_before s (closing_delimiter_pos z)) \<and> backslashes_before s (z_end z) = 0"
proof -
  from assms obtain e where e: "find_closing_tag s (i + 1) [backtick] = Some e"
    and z: "z_end z = e" "close_tag z = [backtick]"
    by (auto simp: inline_code_zone_def split: option.splits if_splits)
  have "[backtick] \<noteq> []" "last [backtick] \<noteq> backslash"
    by (simp_all add: backslash_def backtick_def)
  from closing_tag_unescaped [OF e this] z show ?thesis
    by (simp add: closing_delimiter_pos_def)
qed

lemma link_zone_unescaped:
  assumes "link_zone s i = Some z"
  shows "even (backslashes_before s (closing_delimiter_pos z)) \<and> backslashes_before s (z_end z) = 0"
proof -
  from assms obtain p e where e: "find_closing_tag s p '')'' = Some e"
    and z: "z_end z = e" "close_tag z = []"
    by (auto simp: link_zone_def split: option.splits if_splits)
  have "'')'' \<noteq> []" "last '')'' \<noteq> backslash"
    by (simp_all add: backslash_def)
  from closing_tag_unescaped [OF e this] z show ?thesis
    by (simp add: closing_delimiter_pos_def)
qed

lemma format_zone_unescaped:
  assumes "format_zone s i = Some z"
  shows "even (backslashes_before s (closing_delimiter_pos z)) \<and> backslashes_before s (z_end z) = 0"
proof -
  define tag where "tag = format_tag s i"
  from assms have ne: "tag \<noteq> []"
    by (auto simp: format_zone_def Let_def tag_def split: if_splits)
  with assms obtain e where e: "find_closing_tag s (i + length tag) tag = Some e"
    and z: "z_end z = e" "close_tag z = tag"
    by (auto simp: format_zone_def Let_def tag_def split: option.splits)
  from ne have "last tag \<noteq> backslash"
    unfolding tag_def by (rule format_tag_last)
  from closing_tag_unescaped [OF e ne this] z ne show ?thesis
    by (simp add: closing_delimiter_pos_def)
qed

lemma zone_at_unescaped:
  assumes "zone_at s i = Some z"
  shows "even (backslashes_before s (closing_delimiter_pos z))" and "backslashes_before s (z_end z) = 0"
  using zone_at_cases [OF assms]
    fence_zone_unescaped inline_code_zone_unescaped link_zone_unescaped format_zone_unescaped
  by blast+

lemma find_zones_from_unescaped:
  "even (backslashes_before s i) \<Longrightarrow>
   \<forall>z\<in>set (find_zones_from s i).
      even (backslashes_before s (z_start z)) \<and> even (backslashes_before s (closing_delimiter_pos z))"
proof (induction s i rule: find_zones_from.induct)
  case (1 s i)
  show ?case
  proof (cases "i < length s")
    case False
    then have "find_zones_from s i = []"
      by (subst find_zones_from.simps) simp
    then show ?thesis by simp
  next
    case len: True
    show ?thesis
    proof (cases "s ! i = backslash")
      case True
      with len have eq: "find_zones_from s i = find_zones_from s (i + 2)"
        by (subst find_zones_from.simps) simp
      from True "1.prems" have "even (backslashes_before s (i + 2))"
        by simp
      with "1.IH"(1) len True show ?thesis
        unfolding eq by blast
    next
      case nb: False
      show ?thesis
      proof (cases "zone_at s i")
        case None
        with len nb have eq: "find_zones_from s i = find_zones_from s (i + 1)"
          by (subst find_zones_from.simps) simp
        from nb have "even (backslashes_before s (i + 1))"
          by simp
        with "1.IH"(2) len nb None show ?thesis
          unfolding eq by blast
      next
        case (Some z)
        with len nb have eq: "find_zones_from s i = z # find_zones_from s (z_end z)"
          by (subst find_zones_from.simps) simp
        note u = zone_at_unescaped [OF Some] and st = zone_at_advances(1) [OF Some]
        from u(2) have "even (backslashes_before s (z_end z))"
          by simp
        with "1.IH"(3) len nb Some have
          "\<forall>z'\<in>set (find_zones_from s (z_end z)).
             even (backslashes_before s (z_start z')) \<and>
             even (backslashes_before s (closing_delimiter_pos z'))"
          by blast
        with u(1) st "1.prems" show ?thesis
          unfolding eq by simp
      qed
    qed
  qed
qed

text \<open>
  C7. A position of the text that is immediately preceded by an odd number of consecutive
  backslashes is escaped in the sense of \<^verbatim>\<open>_is_escaped\<close>, and no zone returned by the
  scanner opens there or has its closing delimiter there.
\<close>

theorem escaped_delimiter_inert:
  assumes "p < length s" and "odd (preceding_backslashes s p)" and "z \<in> set (find_zones s)"
  shows "is_escaped s (int p) \<and> z_start z \<noteq> p \<and> closing_delimiter_pos z \<noteq> p"
proof -
  from assms(1) have bb: "backslashes_before s p = preceding_backslashes s p"
    by (simp add: backslashes_before_count)
  with assms(2) have odd: "odd (backslashes_before s p)"
    by simp
  then have "is_escaped s (int p)"
    by (simp add: is_escaped_def odd_iff_mod_2_eq_one)
  moreover have "even (backslashes_before s (z_start z))"
    and "even (backslashes_before s (closing_delimiter_pos z))"
    using find_zones_from_unescaped [of s 0] assms(3) by (auto simp: find_zones_def)
  with odd have "z_start z \<noteq> p" and "closing_delimiter_pos z \<noteq> p"
    by auto
  ultimately show ?thesis by simp
qed

lemma escaped_star_zones:
  "find_zones escaped_star_text =
     [\<lparr>z_start = 0, z_end = 6, open_tag = ''*'', close_tag = ''*'',
        require_newline = False, atomic = False\<rparr>]"
  by code_simp

theorem escaped_delimiter_inert_witness:
  "3 < length escaped_star_text
   \<and> odd (preceding_backslashes escaped_star_text 3)
   \<and> \<lparr>z_start = 0, z_end = 6, open_tag = ''*'', close_tag = ''*'',
        require_newline = False, atomic = False\<rparr> \<in> set (find_zones escaped_star_text)
   \<and> is_escaped escaped_star_text (int 3)
   \<and> z_start \<lparr>z_start = 0, z_end = 6, open_tag = ''*'', close_tag = ''*'',
        require_newline = False, atomic = False\<rparr> \<noteq> 3
   \<and> closing_delimiter_pos \<lparr>z_start = 0, z_end = 6, open_tag = ''*'', close_tag = ''*'',
        require_newline = False, atomic = False\<rparr> \<noteq> 3"
proof -
  have a: "3 < length escaped_star_text"
    by (simp add: escaped_star_text_def)
  have b: "odd (preceding_backslashes escaped_star_text 3)"
    by (simp add: escaped_star_text_def preceding_backslashes_def backslash_def)
  have c: "\<lparr>z_start = 0, z_end = 6, open_tag = ''*'', close_tag = ''*'',
        require_newline = False, atomic = False\<rparr> \<in> set (find_zones escaped_star_text)"
    by (simp add: escaped_star_zones)
  from escaped_delimiter_inert [OF a b c] a b c show ?thesis
    by simp
qed

lemma is_escaped_int: "is_escaped s (int k) = (backslashes_before s k mod 2 \<noteq> 0)"
  by (simp add: is_escaped_def)

lemma str_find_here:
  assumes "starts_at s p sub" and "p + length sub \<le> length s"
  shows "str_find s sub p = Some p"
proof -
  from assms(2) have "p < Suc (length s) - length sub"
    by simp
  then have "[p ..< Suc (length s) - length sub] = p # [Suc p ..< Suc (length s) - length sub]"
    by (rule upt_conv_Cons)
  with assms(1) show ?thesis
    by (simp add: str_find_def)
qed

text \<open>
  C6, as amended. At a run of three backticks with no unescaped closing run after it the
  scanner creates no fenced zone. The branch falls through to the inline-code branch,
  which pairs the first backtick of the run with the second one: an atomic zone of length
  two is appended and scanning resumes two positions forward.
\<close>

theorem unclosed_fence_falls_through:
  assumes "starts_at s i fence" and "find_closing_tag s (i + 3) fence = None"
  shows "fence_zone s i = None \<and>
         find_zones_from s i =
           \<lparr>z_start = i, z_end = i + 2, open_tag = [backtick], close_tag = [backtick],
              require_newline = False, atomic = True\<rparr> # find_zones_from s (i + 2)"
proof -
  have len3: "length fence = 3"
    by (simp add: fence_def)
  from assms(1) have eq: "take (length fence) (drop i s) = fence"
    by (simp add: starts_at_def)
  from arg_cong [OF eq, of length] len3 have len: "i + 3 \<le> length s"
    by simp
  have c0: "s ! i = backtick"
    using starts_at_nth [OF assms(1), of 0] by (simp add: fence_def)
  have c1: "s ! (i + 1) = backtick"
    using starts_at_nth [OF assms(1), of 1] by (simp add: fence_def)
  have nb: "s ! i \<noteq> backslash"
    by (simp add: c0 backtick_def backslash_def)
  have f: "fence_zone s i = None"
    using assms by (simp add: fence_zone_def)
  from c1 len have "starts_at s (i + 1) [backtick]"
    by (simp add: starts_at_def take_Suc_conv_app_nth hd_drop_conv_nth take_Suc)
  with len have "str_find s [backtick] (i + 1) = Some (i + 1)"
    by (intro str_find_here) simp_all
  moreover from nb have "\<not> is_escaped s (int (i + 1))"
    unfolding is_escaped_int by simp
  ultimately have "find_closing_tag s (i + 1) [backtick] = Some (i + 2)"
    by (subst find_closing_tag.simps) simp
  with c0 have "inline_code_zone s i =
      Some \<lparr>z_start = i, z_end = i + 2, open_tag = [backtick], close_tag = [backtick],
             require_newline = False, atomic = True\<rparr>"
    by (simp add: inline_code_zone_def)
  with f have "zone_at s i =
      Some \<lparr>z_start = i, z_end = i + 2, open_tag = [backtick], close_tag = [backtick],
             require_newline = False, atomic = True\<rparr>"
    by (simp add: zone_at_def)
  with len nb f show ?thesis
    by (subst find_zones_from.simps) simp
qed

text \<open>
  C6, as stated, fails: in the text of three backticks followed by \<open>abc\<close> the run is
  not closed, and yet the scanner returns a zone that starts at the run; scanning from
  the run is not the same as scanning from one position after it.
\<close>

theorem unclosed_fence_counterexample:
  "starts_at ''```abc'' 0 fence
   \<and> find_closing_tag ''```abc'' (0 + 3) fence = None
   \<and> find_zones_from ''```abc'' 0 \<noteq> find_zones_from ''```abc'' (0 + 1)
   \<and> find_zones ''```abc'' =
       [\<lparr>z_start = 0, z_end = 2, open_tag = [backtick], close_tag = [backtick],
          require_newline = False, atomic = True\<rparr>]"
  by code_simp

theorem unclosed_fence_falls_through_witness:
  "starts_at ''```abc'' 0 fence
   \<and> find_closing_tag ''```abc'' (0 + 3) fence = None
   \<and> fence_zone ''```abc'' 0 = None
   \<and> find_zones_from ''```abc'' 0 =
       \<lparr>z_start = 0, z_end = 0 + 2, open_tag = [backtick], close_tag = [backtick],
          require_newline = False, atomic = True\<rparr> # find_zones_from ''```abc'' (0 + 2)"
proof -
  have a: "starts_at ''```abc'' 0 fence"
    by code_simp
  have b: "find_closing_tag ''```abc'' (0 + 3) fence = None"
    by code_simp
  from unclosed_fence_falls_through [OF a b] a b show ?thesis
    by simp
qed

section \<open>Properties of the backoff policy\<close>

text \<open>
  C5, as stated, fails for large attempt indices: at index 1024 the power
  \<^verbatim>\<open>2.0 ** attempt\<close> overflows and no delay is computed.
\<close>

theorem error_delay_overflows:
  "error_delay YandexAPIError 1024 = Inl (OverflowError, Interpreter)"
  by (simp add: error_delay_def)

text \<open>
  C5, as amended. For attempt indices \<open>i \<le> j\<close> below 1024 the delay is
  \<open>min (base_delay * 2 ^ i) max_delay\<close> with the pair configured for the error class:
  1 and 10 for \<open>YandexAPIError\<close>, 2 and 30 for \<open>YandexRequestError\<close>, 1 and 15
  for any other class. The delay does not decrease from \<open>i\<close> to \<open>j\<close> and never
  exceeds the cap.
\<close>

theorem error_delay_backoff:
  assumes "i \<le> j" and "j < 1024"
  shows "error_delay c i = Inr (min (fst (retry_config c) * 2 ^ i) (snd (retry_config c)))
       \<and> error_delay c j = Inr (min (fst (retry_config c) * 2 ^ j) (snd (retry_config c)))
       \<and> min (fst (retry_config c) * 2 ^ i) (snd (retry_config c))
           \<le> min (fst (retry_config c) * 2 ^ j) (snd (retry_config c))
       \<and> min (fst (retry_config c) * 2 ^ j) (snd (retry_config c)) \<le> snd (retry_config c)
       \<and> retry_config YandexAPIError = (1, 10)
       \<and> retry_config YandexRequestError = (2, 30)
       \<and> (c \<noteq> YandexAPIError \<and> c \<noteq> YandexRequestError \<longrightarrow> retry_config c = (1, 15))"
proof -
  obtain base_delay max_delay where cfg: "retry_config c = (base_delay, max_delay)"
    by (cases "retry_config c")
  have pos: "0 \<le> base_delay"
    using cfg by (cases c) (auto simp: retry_config_def)
  from assms have "(2::real) ^ i \<le> 2 ^ j"
    by (intro power_increasing) simp_all
  with pos have "base_delay * 2 ^ i \<le> base_delay * 2 ^ j"
    by (simp add: mult_left_mono)
  then have mono: "min (base_delay * 2 ^ i) max_delay \<le> min (base_delay * 2 ^ j) max_delay"
    by (simp add: min_le_iff_disj)
  from assms have "i < 1024"
    by simp
  with assms(2) cfg mono show ?thesis
    by (cases c) (simp_all add: error_delay_def BACKOFF_FACTOR_def retry_config_def)
qed

theorem error_delay_backoff_witness:
  "(2::nat) \<le> 4 \<and> (4::nat) < 1024
   \<and> error_delay YandexRequestError 2 = Inr 8
   \<and> error_delay YandexRequestError 4 = Inr 30
   \<and> retry_config OtherException = (1, 15)"
proof -
  have a: "(2::nat) \<le> 4" and b: "(4::nat) < 1024"
    by simp_all
  have c: "OtherException \<noteq> YandexAPIError \<and> OtherException \<noteq> YandexRequestError"
    by simp
  from error_delay_backoff [OF a b, of YandexRequestError] error_delay_backoff [OF a b, of OtherException] c
  show ?thesis
    by (simp add: retry_config_def)
qed

section \<open>Properties of the retry loop and of the batch loop\<close>

text \<open>
  C8. At any attempt of the retry loop, if the transform raises an exception that is
  neither a \<open>YandexAPIError\<close> nor a \<open>YandexRequestError\<close>, the loop ends at once
  with that exception: the world is the one the failing call left, so the transform is not
  called again, and no delay is slept. If the exception is of one of the two classes,
  attempts remain and the delay is computed, the loop sleeps for the delay and goes on
  with the next attempt.
\<close>

theorem unrecognized_error_not_retried:
  assumes "int attempt < max_retries" and "transform w chunk = (Inl e, w')"
  shows "(fst e \<noteq> YandexAPIError \<and> fst e \<noteq> YandexRequestError \<longrightarrow>
            retry_from transform chunk max_retries attempt last_exception (w, slept)
              = (Inl e, w', slept))
       \<and> ((fst e = YandexAPIError \<or> fst e = YandexRequestError)
            \<and> int attempt < max_retries - 1 \<and> error_delay (fst e) attempt = Inr delay \<longrightarrow>
            retry_from transform chunk max_retries attempt last_exception (w, slept)
              = retry_from transform chunk max_retries (attempt + 1) (Some e) (w', slept @ [delay]))"
  using assms by (subst (1 2) retry_from.simps) (simp add: recognized_def)

lemma retry_recognized_failure:
  assumes "retry_from transform chunk max_retries attempt last_exception (w, slept)
             = (Inl e, w', slept')"
    and "recognized (fst e)" and "int attempt < max_retries"
  shows "(\<exists>w0. transform w0 chunk = (Inl e, w'))
       \<and> length slept' = length slept + nat (max_retries - 1 - int attempt)"
  using assms
proof (induction transform chunk max_retries attempt last_exception "(w, slept)"
    arbitrary: w slept rule: retry_from.induct)
  case (1 transform chunk max_retries attempt last_exception w slept)
  obtain r w1 where call: "transform w chunk = (r, w1)"
    by (cases "transform w chunk")
  show ?case
  proof (cases r)
    case (Inr result)
    with "1.prems" call show ?thesis
      by (subst (asm) retry_from.simps) simp
  next
    case (Inl e1)
    show ?thesis
    proof (cases "recognized (fst e1)")
      case False
      with "1.prems" call Inl show ?thesis
        by (subst (asm) retry_from.simps) auto
    next
      case rec: True
      show ?thesis
      proof (cases "error_delay (fst e1) attempt")
        case (Inl overflow)
        then have "fst overflow = OverflowError"
          by (auto simp: error_delay_def Let_def split: if_splits prod.splits)
        with "1.prems" call \<open>r = Inl e1\<close> rec Inl show ?thesis
          by (subst (asm) retry_from.simps) (auto simp: recognized_def)
      next
        case (Inr delay)
        let ?slept1 = "if int attempt < max_retries - 1 then slept @ [delay] else slept"
        from "1.prems" call \<open>r = Inl e1\<close> rec Inr have next_run:
          "retry_from transform chunk max_retries (attempt + 1) (Some e1) (w1, ?slept1)
             = (Inl e, w', slept')"
          by (subst (asm) retry_from.simps) simp
        show ?thesis
        proof (cases "int (attempt + 1) < max_retries")
          case True
          from "1.prems"(3) have nn: "\<not> \<not> int attempt < max_retries"
            by simp
          from "1.hyps" [OF nn call [symmetric] \<open>r = Inl e1\<close> rec Inr next_run "1.prems"(2) True]
          have "(\<exists>w0. transform w0 chunk = (Inl e, w'))
              \<and> length slept' = length ?slept1 + nat (max_retries - 1 - int (attempt + 1))"
            by simp
          with True show ?thesis
            by (auto simp: nat_diff_distrib)
        next
          case False
          with next_run have "e = e1" "w' = w1" "slept' = ?slept1"
            by (subst (asm) retry_from.simps, simp)+
          with False "1.prems"(3) call \<open>r = Inl e1\<close> show ?thesis
            by auto
        qed
      qed
    qed
  qed
qed

lemma batch_loop_append:
  "batch_loop transform annotate max_retries tot cs acc st = (Inr rs, st') \<Longrightarrow>
     batch_loop transform annotate max_retries tot' (cs @ later) acc st
       = batch_loop transform annotate max_retries tot' later rs st'
     \<and> length rs = length acc + length cs"
proof (induction cs arbitrary: acc st)
  case Nil
  then show ?case by simp
next
  case (Cons c cs)
  obtain r st1 where step: "chunk_with_retry transform c max_retries st = (r, st1)"
    by (cases "chunk_with_retry transform c max_retries st")
  show ?case
  proof (cases r)
    case (Inl e)
    with Cons.prems step show ?thesis
      by (simp split: if_splits)
  next
    case (Inr result)
    with Cons.prems step have
      "batch_loop transform annotate max_retries tot cs (acc @ [result]) st1 = (Inr rs, st')"
      by simp
    from Cons.IH [OF this] step Inr show ?thesis
      by simp
  qed
qed

text \<open>
  What the batch loop does once the retry loop has raised an exception of a recognized
  class, and where such an exception comes from: it is what the last call of the
  transform raised, after a sleep following every attempt but the last.
\<close>

lemma batch_reraises_recognized:
  assumes "run_batch transform annotate max_retries finished st0 = (Inr results, st1)"
    and "chunk_with_retry transform chunk max_retries st1 = (Inl e, st2)"
    and "fst e = YandexAPIError \<or> fst e = YandexRequestError"
  shows "run_batch transform annotate max_retries (finished @ chunk # rest) st0
           = (Inl (fst e, annotate (snd e) (length finished) (length (finished @ chunk # rest))), st2)
       \<and> length results = length finished
       \<and> 0 < max_retries
       \<and> (\<exists>w. transform w chunk = (Inl e, fst st2))
       \<and> length (snd st2) = length (snd st1) + nat (max_retries - 1)"
proof -
  from assms(3) have rec: "recognized (fst e)"
    by (simp add: recognized_def)
  from assms(1) have pre:
    "batch_loop transform annotate max_retries (length finished) finished [] st0 = (Inr results, st1)"
    by (simp add: run_batch_def)
  note app = batch_loop_append [OF pre, of "length (finished @ chunk # rest)" "chunk # rest"]
  from app assms(2) rec have run:
    "run_batch transform annotate max_retries (finished @ chunk # rest) st0
       = (Inl (fst e, annotate (snd e) (length finished) (length (finished @ chunk # rest))), st2)"
    by (simp add: run_batch_def)
  obtain w1 slept1 where st1: "st1 = (w1, slept1)"
    by (cases st1)
  obtain w2 slept2 where st2: "st2 = (w2, slept2)"
    by (cases st2)
  from assms(2) have retry:
    "retry_from transform chunk max_retries 0 None (w1, slept1) = (Inl e, w2, slept2)"
    by (simp add: chunk_with_retry_def st1 st2)
  have pos: "0 < max_retries"
  proof (rule ccontr)
    assume "\<not> 0 < max_retries"
    with retry have "e = (TypeError, Interpreter)"
      by (subst (asm) retry_from.simps) simp
    with rec show False
      by (simp add: recognized_def)
  qed
  then have "int 0 < max_retries"
    by simp
  from retry_recognized_failure [OF retry rec this] st1 st2
  have "(\<exists>w. transform w chunk = (Inl e, fst st2))
      \<and> length (snd st2) = length (snd st1) + nat (max_retries - 1)"
    by simp
  with run app pos show ?thesis
    by simp
qed

lemma error_delay_overflow_from_1024:
  "1024 \<le> attempt \<Longrightarrow> error_delay c attempt = Inl (OverflowError, Interpreter)"
  by (simp add: error_delay_def)

lemma error_delay_below_1024:
  "attempt < 1024 \<Longrightarrow> \<exists>delay. error_delay c attempt = Inr delay"
  by (simp add: error_delay_def Let_def split: prod.splits)

lemma retry_all_attempts_fail:
  assumes "attempts_fail transform chunk n w = Some (es, w2)"
    and "0 < n" and "int (attempt + n) = max_retries" and "attempt + n \<le> 1024"
  shows "\<exists>slept'. retry_from transform chunk max_retries attempt last_exception (w, slept)
             = (Inl (last es), w2, slept')
           \<and> length slept' = length slept + (n - 1)"
  using assms
proof (induction n arbitrary: attempt w slept last_exception es)
  case 0
  then show ?case by simp
next
  case (Suc n)
  from Suc.prems(1) obtain e w1 es1 where call: "transform w chunk = (Inl e, w1)"
    and rec: "recognized (fst e)"
    and rest: "attempts_fail transform chunk n w1 = Some (es1, w2)"
    and es: "es = e # es1"
    by (auto split: prod.splits sum.splits if_splits option.splits)
  from Suc.prems(3) have lt: "int attempt < max_retries"
    by simp
  from Suc.prems(4) have "attempt < 1024"
    by simp
  then obtain delay where d: "error_delay (fst e) attempt = Inr delay"
    using error_delay_below_1024 by blast
  let ?slept1 = "if int attempt < max_retries - 1 then slept @ [delay] else slept"
  from lt call rec d have step:
    "retry_from transform chunk max_retries attempt last_exception (w, slept)
       = retry_from transform chunk max_retries (attempt + 1) (Some e) (w1, ?slept1)"
    by (subst retry_from.simps) simp
  show ?case
  proof (cases n)
    case 0
    with rest have "es1 = []" and "w2 = w1"
      by simp_all
    moreover from 0 Suc.prems(3) have "\<not> int (attempt + 1) < max_retries" and "\<not> int attempt < max_retries - 1"
      by simp_all
    ultimately show ?thesis
      unfolding step using es 0 by (subst retry_from.simps) simp
  next
    case (Suc m)
    with Suc.prems(3) have more: "int attempt < max_retries - 1"
      by simp
    from Suc have "0 < n" by simp
    moreover from Suc.prems(3) have "int (attempt + 1 + n) = max_retries" by simp
    moreover from Suc.prems(4) have "attempt + 1 + n \<le> 1024" by simp
    ultimately obtain slept' where
      "retry_from transform chunk max_retries (attempt + 1) (Some e) (w1, ?slept1)
         = (Inl (last es1), w2, slept')"
      and "length slept' = length ?slept1 + (n - 1)"
      using Suc.IH [OF rest, of "attempt + 1" "Some e" ?slept1] by blast
    moreover from rest Suc have "es1 \<noteq> []"
      by (auto split: prod.splits sum.splits if_splits option.splits)
    ultimately show ?thesis
      unfolding step using es more Suc by simp
  qed
qed

lemma retry_overflows:
  assumes "\<And>w. fst (transform w chunk) = Inl e" and "recognized (fst e)"
    and "attempt \<le> 1024" and "1024 < max_retries"
  shows "fst (retry_from transform chunk max_retries attempt last_exception (w, slept))
           = Inl (OverflowError, Interpreter)"
  using assms(3)
proof (induction "1024 - attempt" arbitrary: attempt w slept last_exception)
  case 0
  then have a: "attempt = 1024" by simp
  obtain w1 where call: "transform w chunk = (Inl e, w1)"
    using assms(1) [of w] by (cases "transform w chunk") simp
  from a assms(4) have "int attempt < max_retries" by simp
  with call assms(2) a show ?case
    by (subst retry_from.simps) (simp add: error_delay_overflow_from_1024)
next
  case (Suc k)
  then have lt: "attempt < 1024" by simp
  obtain w1 where call: "transform w chunk = (Inl e, w1)"
    using assms(1) [of w] by (cases "transform w chunk") simp
  from lt obtain delay where d: "error_delay (fst e) attempt = Inr delay"
    using error_delay_below_1024 by blast
  from lt assms(4) have "int attempt < max_retries" by simp
  with call assms(2) d have step:
    "retry_from transform chunk max_retries attempt last_exception (w, slept)
       = retry_from transform chunk max_retries (attempt + 1) (Some e)
           (w1, if int attempt < max_retries - 1 then slept @ [delay] else slept)"
    by (subst retry_from.simps) simp
  from Suc(2) have "k = 1024 - (attempt + 1)" by simp
  moreover from lt have "attempt + 1 \<le> 1024" by simp
  ultimately show ?case
    unfolding step by (rule Suc(1))
qed

lemma attempts_fail_failing_on:
  "recognized (fst e) \<Longrightarrow> attempts_fail (failing_on bad e) bad n w = Some (replicate n e, w + n)"
  by (induction n arbitrary: w) (simp_all add: failing_on_def)

lemma attempts_fail_recognized:
  "attempts_fail transform chunk n w = Some (es, w2) \<Longrightarrow>
     length es = n \<and> (\<forall>e\<in>set es. recognized (fst e))"
proof (induction n arbitrary: w es)
  case 0
  then show ?case by simp
next
  case (Suc n)
  from Suc.prems obtain e w1 es1 where "recognized (fst e)"
    and rest: "attempts_fail transform chunk n w1 = Some (es1, w2)"
    and es: "es = e # es1"
    by (auto split: prod.splits sum.splits if_splits option.splits)
  with Suc.IH [OF rest] show ?case
    by simp
qed

text \<open>
  C4, as amended. Let \<open>max_retries\<close> be between 1 and 1024. Suppose the chunks before
  \<open>chunk\<close> have all been transformed and then every one of the \<open>max_retries\<close>
  attempts on \<open>chunk\<close> fails with an exception of a recognized class. Then the batch
  stops there, whatever chunks follow: it raises an exception of the class of the last
  failure, whose message is that of the last failure annotated with the number of chunks
  transformed so far and the total number of chunks. No results are returned, the
  transform is not called again, and the loop has slept after every attempt but the last.
\<close>

theorem batch_stops_after_exhausted_retries:
  assumes "run_batch transform annotate max_retries finished st0 = (Inr results, st1)"
    and "attempts_fail transform chunk (nat max_retries) (fst st1) = Some (failures, w2)"
    and "0 < max_retries" and "max_retries \<le> 1024"
  shows "fst (run_batch transform annotate max_retries (finished @ chunk # rest) st0)
           = Inl (fst (last failures),
                  annotate (snd (last failures)) (length finished)
                    (length (finished @ chunk # rest)))
       \<and> (fst (last failures) = YandexAPIError \<or> fst (last failures) = YandexRequestError)
       \<and> length failures = nat max_retries
       \<and> length results = length finished
       \<and> fst (snd (run_batch transform annotate max_retries (finished @ chunk # rest) st0)) = w2
       \<and> length (snd (snd (run_batch transform annotate max_retries (finished @ chunk # rest) st0)))
           = length (snd st1) + nat (max_retries - 1)"
proof -
  obtain w1 slept1 where st1: "st1 = (w1, slept1)"
    by (cases st1)
  from assms(3) have n: "0 < nat max_retries" and "int (0 + nat max_retries) = max_retries"
    by simp_all
  moreover from assms(4) have "0 + nat max_retries \<le> 1024"
    by simp
  ultimately obtain slept2 where
    retry: "retry_from transform chunk max_retries 0 None (w1, slept1)
              = (Inl (last failures), w2, slept2)"
    and slept: "length slept2 = length slept1 + (nat max_retries - 1)"
    using retry_all_attempts_fail [of transform chunk "nat max_retries" w1 failures w2 0
        max_retries None slept1] assms(2) st1
    by auto
  from attempts_fail_recognized [OF assms(2)] have len: "length failures = nat max_retries"
    and all: "\<forall>e\<in>set failures. recognized (fst e)"
    by simp_all
  from len n have "failures \<noteq> []"
    by auto
  then have "last failures \<in> set failures"
    by (rule last_in_set)
  with all have rec: "recognized (fst (last failures))"
    by blast
  from assms(1) have pre:
    "batch_loop transform annotate max_retries (length finished) finished [] st0 = (Inr results, st1)"
    by (simp add: run_batch_def)
  note app = batch_loop_append [OF pre, of "length (finished @ chunk # rest)" "chunk # rest"]
  from retry st1 have "chunk_with_retry transform chunk max_retries st1
      = (Inl (last failures), w2, slept2)"
    by (simp add: chunk_with_retry_def)
  with app rec have run:
    "run_batch transform annotate max_retries (finished @ chunk # rest) st0
       = (Inl (fst (last failures),
               annotate (snd (last failures)) (length finished)
                 (length (finished @ chunk # rest))), w2, slept2)"
    by (simp add: run_batch_def)
  from slept assms(3) have "length slept2 = length slept1 + nat (max_retries - 1)"
    by (simp add: nat_diff_distrib)
  with run rec len app st1 show ?thesis
    by (simp add: recognized_def)
qed

text \<open>
  C4, as stated, fails when more than 1024 attempts are allowed. With three chunks, the
  second of which fails on every attempt with a \<open>YandexRequestError\<close>, and
  \<open>max_retries = 1025\<close>, the delay computed after the failed attempt with index 1024
  overflows: the batch raises an \<open>OverflowError\<close> without any annotation.
\<close>

theorem batch_overflow_counterexample:
  "run_batch (failing_on ''b'' (YandexRequestError, Text ''down'')) Translated 1025 [''a''] (0, [])
     = (Inr [''a''], (1, []))
   \<and> attempts_fail (failing_on ''b'' (YandexRequestError, Text ''down'')) ''b'' (nat 1025) 1
     = Some (replicate 1025 (YandexRequestError, Text ''down''), 1026)
   \<and> fst (run_batch (failing_on ''b'' (YandexRequestError, Text ''down'')) Translated 1025
          [''a'', ''b'', ''c''] (0, []))
     = Inl (OverflowError, Interpreter)"
proof -
  let ?e = "(YandexRequestError, Text ''down'')"
  let ?tr = "failing_on ''b'' ?e"
  have rec: "recognized (fst ?e)"
    by (simp add: recognized_def)
  have first: "chunk_with_retry ?tr ''a'' 1025 (0, []) = (Inr ''a'', (1, []))"
    unfolding chunk_with_retry_def by (subst retry_from.simps) (simp add: failing_on_def)
  then have a: "run_batch ?tr Translated 1025 [''a''] (0, []) = (Inr [''a''], (1, []))"
    by (simp add: run_batch_def)
  have b: "attempts_fail ?tr ''b'' (nat 1025) 1 = Some (replicate 1025 ?e, 1026)"
    using attempts_fail_failing_on [OF rec, of "''b''" 1025 1] by simp
  have "fst (retry_from ?tr ''b'' 1025 0 None (1, [])) = Inl (OverflowError, Interpreter)"
    by (rule retry_overflows [OF _ rec]) (simp_all add: failing_on_def)
  then obtain st where "chunk_with_retry ?tr ''b'' 1025 (1, []) = (Inl (OverflowError, Interpreter), st)"
    unfolding chunk_with_retry_def
    by (cases "retry_from ?tr ''b'' 1025 0 None (1, [])") auto
  with first have "fst (run_batch ?tr Translated 1025 [''a'', ''b'', ''c''] (0, []))
      = Inl (OverflowError, Interpreter)"
    by (simp add: run_batch_def recognized_def)
  with a b show ?thesis
    by simp
qed

theorem batch_stops_after_exhausted_retries_witness:
  "run_batch (failing_on ''b'' (YandexRequestError, Text ''down'')) Translated 3 [''a''] (0, [])
     = (Inr [''a''], (1, []))
   \<and> attempts_fail (failing_on ''b'' (YandexRequestError, Text ''down'')) ''b'' (nat 3) 1
     = Some ([(YandexRequestError, Text ''down''), (YandexRequestError, Text ''down''),
              (YandexRequestError, Text ''down'')], 4)
   \<and> (0::int) < 3 \<and> (3::int) \<le> 1024
   \<and> fst (run_batch (failing_on ''b'' (YandexRequestError, Text ''down'')) Translated 3
          [''a'', ''b'', ''c''] (0, []))
     = Inl (YandexRequestError, Translated (Text ''down'') 1 3)
   \<and> fst (snd (run_batch (failing_on ''b'' (YandexRequestError, Text ''down'')) Translated 3
          [''a'', ''b'', ''c''] (0, []))) = 4
   \<and> length (snd (snd (run_batch (failing_on ''b'' (YandexRequestError, Text ''down''))
          Translated 3 [''a'', ''b'', ''c''] (0, [])))) = 2"
proof -
  let ?e = "(YandexRequestError, Text ''down'')"
  let ?tr = "failing_on ''b'' ?e"
  have "chunk_with_retry ?tr ''a'' 3 (0, []) = (Inr ''a'', (1, []))"
    unfolding chunk_with_retry_def by (subst retry_from.simps) (simp add: failing_on_def)
  then have a: "run_batch ?tr Translated 3 [''a''] (0, []) = (Inr [''a''], (1, []))"
    by (simp add: run_batch_def)
  have b0: "attempts_fail ?tr ''b'' (nat 3) 1 = Some ([?e, ?e, ?e], 4)"
    using attempts_fail_failing_on [of ?e "''b''" 3 1]
    by (simp add: recognized_def numeral_3_eq_3)
  then have b: "attempts_fail ?tr ''b'' (nat 3) (fst (1::nat, [] :: real list)) = Some ([?e, ?e, ?e], 4)"
    by simp
  have c: "(0::int) < 3" and d: "(3::int) \<le> 1024"
    by simp_all
  from batch_stops_after_exhausted_retries [OF a b c d, of "[''c'']"] a b0 show ?thesis
    by simp
qed

theorem unrecognized_error_not_retried_witness:
  "int 0 < 3
   \<and> failing_on ''b'' (ValueError, Text ''bad'') 0 ''b'' = (Inl (ValueError, Text ''bad''), 1)
   \<and> retry_from (failing_on ''b'' (ValueError, Text ''bad'')) ''b'' 3 0 None (0, [])
       = (Inl (ValueError, Text ''bad''), 1, [])
   \<and> failing_on ''b'' (YandexAPIError, Text ''bad'') 0 ''b'' = (Inl (YandexAPIError, Text ''bad''), 1)
   \<and> error_delay YandexAPIError 0 = Inr 1
   \<and> retry_from (failing_on ''b'' (YandexAPIError, Text ''bad'')) ''b'' 3 0 None (0, [])
       = retry_from (failing_on ''b'' (YandexAPIError, Text ''bad'')) ''b'' 3 (0 + 1)
           (Some (YandexAPIError, Text ''bad'')) (1, [] @ [1])"
proof -
  have a: "int 0 < 3"
    by simp
  have b: "failing_on ''b'' (ValueError, Text ''bad'') 0 ''b'' = (Inl (ValueError, Text ''bad''), 1)"
    by (simp add: failing_on_def)
  have c: "failing_on ''b'' (YandexAPIError, Text ''bad'') 0 ''b''
      = (Inl (YandexAPIError, Text ''bad''), 1)"
    by (simp add: failing_on_def)
  have d: "error_delay YandexAPIError 0 = Inr 1"
    by (simp add: error_delay_def retry_config_def BACKOFF_FACTOR_def)
  from unrecognized_error_not_retried
      [where attempt = 0 and max_retries = 3 and w = 0 and chunk = "''b''" and w' = 1
         and transform = "failing_on ''b'' (ValueError, Text ''bad'')"
         and e = "(ValueError, Text ''bad'')"
         and last_exception = None and slept = "[]" and delay = 1, OF a b]
    unrecognized_error_not_retried
      [where attempt = 0 and max_retries = 3 and w = 0 and chunk = "''b''" and w' = 1
         and transform = "failing_on ''b'' (YandexAPIError, Text ''bad'')"
         and e = "(YandexAPIError, Text ''bad'')"
         and last_exception = None and slept = "[]" and delay = 1, OF a c]
    a b c d
  show ?thesis
    by simp
qed

section \<open>Properties of the built-in transforms\<close>

lemma yandex_translate_failure:
  assumes "yandex_translate input_text response = Inl e"
  shows "(input_text \<noteq> [] \<longrightarrow> fst e = YandexRequestError)
       \<and> (input_text = [] \<longrightarrow> e = (ValueError, EmptyInput))"
  using assms by (auto simp: yandex_translate_def Let_def split: if_splits sum.splits)

lemma yandex_editor_api_failure:
  assumes "yandex_editor_api input_text action response = Inl e"
  shows "(input_text \<noteq> [] \<longrightarrow> fst e = YandexRequestError)
       \<and> (input_text = [] \<longrightarrow> e = (ValueError, EmptyInput))"
  using assms by (auto simp: yandex_editor_api_def Let_def split: if_splits sum.splits)

text \<open>
  C10, as amended. Whenever one of the built-in transforms fails, directly or as the retry
  loop calls it, then for a non-empty input text the exception is a
  \<open>YandexRequestError\<close>, whose backoff pair is 2 and 30, and for the empty text it is
  the \<open>ValueError\<close> of the language detection, which runs before the \<open>try\<close>
  block. In no case is it a \<open>YandexAPIError\<close>.
\<close>

theorem builtin_transform_failures:
  assumes "yandex_translate input_text response = Inl e \<or> yandex_editor_api input_text action response = Inl e
           \<or> fst (translate_call service requests input_text) = Inl e
           \<or> fst (editor_call service action requests input_text) = Inl e"
  shows "(input_text \<noteq> [] \<longrightarrow> fst e = YandexRequestError \<and> retry_config (fst e) = (2, 30))
       \<and> (input_text = [] \<longrightarrow> e = (ValueError, EmptyInput))
       \<and> fst e \<noteq> YandexAPIError"
proof -
  from assms consider
      (translate) r where "yandex_translate input_text r = Inl e"
    | (editor) r where "yandex_editor_api input_text action r = Inl e"
    by (auto simp: translate_call_def editor_call_def)
  then have "(input_text \<noteq> [] \<longrightarrow> fst e = YandexRequestError)
       \<and> (input_text = [] \<longrightarrow> e = (ValueError, EmptyInput))"
  proof cases
    case translate
    then show ?thesis by (rule yandex_translate_failure)
  next
    case editor
    then show ?thesis by (rule yandex_editor_api_failure)
  qed
  then show ?thesis
    by (cases "input_text = []") (simp_all add: retry_config_def)
qed

text \<open>
  C10, as stated, fails for the empty text: both transforms raise a \<open>ValueError\<close>, not
  a \<open>YandexRequestError\<close>, whatever the service would have answered.
\<close>

theorem builtin_transform_value_error:
  "yandex_translate [] (Responded (JObject [(''text'', JArray [JString ''ok''])]))
     = Inl (ValueError, EmptyInput)
   \<and> yandex_editor_api [] ''correct'' (Responded (JObject [(''result_text'', JString ''ok'')]))
     = Inl (ValueError, EmptyInput)"
  by (simp add: yandex_translate_def yandex_editor_api_def)

theorem builtin_transform_failures_witness:
  "yandex_translate ''hi'' (Responded (JObject [(''code'', JNumber 200)]))
     = Inl (YandexRequestError,
            TranslateFailed (BadResponse (JObject [(''code'', JNumber 200)])))
   \<and> fst (YandexRequestError,
            TranslateFailed (BadResponse (JObject [(''code'', JNumber 200)]))) = YandexRequestError
   \<and> retry_config YandexRequestError = (2, 30)"
proof -
  have a: "yandex_translate ''hi'' (Responded (JObject [(''code'', JNumber 200)]))
     = Inl (YandexRequestError,
            TranslateFailed (BadResponse (JObject [(''code'', JNumber 200)])))"
    by (simp add: yandex_translate_def json_get_def)
  then have b: "yandex_translate ''hi'' (Responded (JObject [(''code'', JNumber 200)]))
       = Inl (YandexRequestError,
            TranslateFailed (BadResponse (JObject [(''code'', JNumber 200)])))
     \<or> yandex_editor_api ''hi'' ''correct'' (Responded (JObject [(''code'', JNumber 200)]))
       = Inl (YandexRequestError,
            TranslateFailed (BadResponse (JObject [(''code'', JNumber 200)])))
     \<or> fst (translate_call (\<lambda>k. Responded (JObject [(''code'', JNumber 200)])) 0 ''hi'')
       = Inl (YandexRequestError,
            TranslateFailed (BadResponse (JObject [(''code'', JNumber 200)])))
     \<or> fst (editor_call (\<lambda>k. Responded (JObject [(''code'', JNumber 200)])) ''correct'' 0 ''hi'')
       = Inl (YandexRequestError,
            TranslateFailed (BadResponse (JObject [(''code'', JNumber 200)])))"
    by simp
  from builtin_transform_failures [OF b] a show ?thesis
    by simp
qed

end
